theory Spec2Isabelle
  imports Main
begin

section \<open>Structural pattern matching on a malformatted CSV text\<close>

text \<open>
  The notebook holds one executable transformation:
  \<^verbatim>\<open>
  values = []
  for line in bad_csv.split("\n"):
      match line.split(","):
          case [x, y, z]:
              values.append([x, y, z])
          case [x, y]:
              values.append([x, y, None])
          case [""]:
              continue
          case ["1"]:
               values.append([1, 2, 3])
          case [x]:
              values.append([x, None, None])
          case _:  # matches if nothing above matches
              raise Exception("This should not happen. ...")
  \<close>
  and two small cells that show that the order of the cases matters.
\<close>

subsection \<open>Values\<close>

text \<open>
  The elements that the loop stores in \<open>values\<close> are Python strings, the integers
  \<open>1\<close>, \<open>2\<close>, \<open>3\<close> and \<open>None\<close>.
\<close>

datatype pyval = PStr string | PInt int | PNone

type_synonym row = "pyval list"

text \<open>The only exception the cell raises.\<close>

datatype error = UnhandledRow

subsection \<open>Splitting a string\<close>

text \<open>
  \<open>s.split(sep)\<close> for a separator of one character: the pieces of \<open>s\<close> between the
  occurrences of \<open>sep\<close>, empty pieces included; the empty string gives one empty piece.
\<close>

fun split_on :: "char \<Rightarrow> string \<Rightarrow> string list" where
  "split_on sep [] = [[]]"
| "split_on sep (c # cs) =
     (if c = sep then [] # split_on sep cs
      else (case split_on sep cs of
              [] \<Rightarrow> [[c]]
            | piece # pieces \<Rightarrow> (c # piece) # pieces))"

definition newline :: char where
  "newline = CHR 0x0A"

definition comma :: char where
  "comma = CHR '',''"

subsection \<open>The match statement\<close>

text \<open>
  What the body of a case does: append a row to \<open>values\<close>, \<open>continue\<close> with the next
  line, or raise.
\<close>

datatype outcome = Append row | Continue | Raise

text \<open>
  Each case clause is a partial function on the subject of the match: \<open>None\<close> when its
  pattern does not match, the outcome of its body when it does.
\<close>

definition case_xyz :: "string list \<Rightarrow> outcome option" where
  "case_xyz subject =
     (case subject of [x, y, z] \<Rightarrow> Some (Append [PStr x, PStr y, PStr z]) | _ \<Rightarrow> None)"

definition case_xy :: "string list \<Rightarrow> outcome option" where
  "case_xy subject =
     (case subject of [x, y] \<Rightarrow> Some (Append [PStr x, PStr y, PNone]) | _ \<Rightarrow> None)"

definition case_empty :: "string list \<Rightarrow> outcome option" where
  "case_empty subject = (if subject = [''''] then Some Continue else None)"

definition case_one :: "string list \<Rightarrow> outcome option" where
  "case_one subject =
     (if subject = [''1''] then Some (Append [PInt 1, PInt 2, PInt 3]) else None)"

definition case_x :: "string list \<Rightarrow> outcome option" where
  "case_x subject =
     (case subject of [x] \<Rightarrow> Some (Append [PStr x, PNone, PNone]) | _ \<Rightarrow> None)"

definition case_wildcard :: "string list \<Rightarrow> outcome option" where
  "case_wildcard subject = Some Raise"

text \<open>
  A match statement runs the body of the first clause whose pattern matches, and no
  other; when no clause matches it does nothing.
\<close>

fun first_match :: "('s \<Rightarrow> 'o option) list \<Rightarrow> 's \<Rightarrow> 'o option" where
  "first_match [] subject = None"
| "first_match (clause # clauses) subject =
     (case clause subject of
        Some out \<Rightarrow> Some out
      | None \<Rightarrow> first_match clauses subject)"

definition match_line :: "string list \<Rightarrow> outcome option" where
  "match_line subject =
     first_match [case_xyz, case_xy, case_empty, case_one, case_x, case_wildcard] subject"

text \<open>
  The variant that the specification compares with: the clauses of \<open>match_line\<close> with
  the capture \<open>[x]\<close> tried before the literal \<open>["1"]\<close>.
\<close>

definition match_line_reordered :: "string list \<Rightarrow> outcome option" where
  "match_line_reordered subject =
     first_match [case_xyz, case_xy, case_empty, case_x, case_one, case_wildcard] subject"

subsection \<open>The loop\<close>

text \<open>
  The loop over the lines, with \<open>values\<close> passed along. It returns \<open>values\<close> as the
  loop leaves it and the exception, if one was raised: an exception ends the loop at
  once and keeps the rows appended so far.
\<close>

fun loop :: "row list \<Rightarrow> string list \<Rightarrow> row list \<times> error option" where
  "loop values [] = (values, None)"
| "loop values (line # lines) =
     (case match_line (split_on comma line) of
        Some (Append r) \<Rightarrow> loop (values @ [r]) lines
      | Some Continue \<Rightarrow> loop values lines
      | Some Raise \<Rightarrow> (values, Some UnhandledRow)
      | None \<Rightarrow> loop values lines)"

definition transform :: "string \<Rightarrow> row list \<times> error option" where
  "transform text = loop [] (split_on newline text)"

definition bad_csv :: string where
  "bad_csv = [newline] @ ''0,1,2'' @ [newline] @ ''1,2,3'' @ [newline] @ ''1,2''
     @ [newline] @ ''0'' @ [newline] @ ''1'' @ [newline]"

subsection \<open>The two cells on the order of the cases\<close>

text \<open>
  \<^verbatim>\<open>
  match ["a"]:                 match ["a"]:
      case [x]:                    case ["a"]:
          print("x")                   print("a")
      case ["a"]:                  case [x]:
          print("a")                   print("x")
  \<close>
  The model returns the lines printed.
\<close>

definition demo_capture :: "string list \<Rightarrow> string option" where
  "demo_capture subject = (case subject of [x] \<Rightarrow> Some ''x'' | _ \<Rightarrow> None)"

definition demo_literal :: "string list \<Rightarrow> string option" where
  "demo_literal subject = (if subject = [''a''] then Some ''a'' else None)"

definition print_lines :: "string option \<Rightarrow> string list" where
  "print_lines out = (case out of Some s \<Rightarrow> [s] | None \<Rightarrow> [])"

definition demo_capture_first :: "string list" where
  "demo_capture_first = print_lines (first_match [demo_capture, demo_literal] [''a''])"

definition demo_literal_first :: "string list" where
  "demo_literal_first = print_lines (first_match [demo_literal, demo_capture] [''a''])"

section \<open>Properties of splitting\<close>

lemma split_on_not_Nil: "split_on sep s \<noteq> []"
  by (induction s) (auto split: list.splits)

lemma length_split_on: "length (split_on sep s) = Suc (count_list s sep)"
proof (induction s)
  case Nil
  show ?case by simp
next
  case (Cons c cs)
  obtain piece pieces where p: "split_on sep cs = piece # pieces"
    using split_on_not_Nil [of sep cs] by (cases "split_on sep cs") auto
  with Cons show ?case by auto
qed

lemma split_on_no_sep: "sep \<notin> set s \<Longrightarrow> split_on sep s = [s]"
  by (induction s) auto

section \<open>Properties of the match statement\<close>

lemmas clause_defs = case_xyz_def case_xy_def case_empty_def case_one_def case_x_def
  case_wildcard_def

lemma match_line_three: "match_line [x, y, z] = Some (Append [PStr x, PStr y, PStr z])"
  by (simp add: match_line_def clause_defs)

lemma match_line_two: "match_line [x, y] = Some (Append [PStr x, PStr y, PNone])"
  by (simp add: match_line_def clause_defs)

lemma match_line_single:
  "match_line [x] =
     Some (if x = '''' then Continue
           else if x = ''1'' then Append [PInt 1, PInt 2, PInt 3]
           else Append [PStr x, PNone, PNone])"
  by (simp add: match_line_def clause_defs)

lemma match_line_Nil: "match_line [] = Some Raise"
  by (simp add: match_line_def clause_defs)

lemma match_line_four: "match_line (a # b # c # d # rest) = Some Raise"
  by (simp add: match_line_def clause_defs)

lemma match_line_Some: "match_line subject \<noteq> None"
  by (simp add: match_line_def clause_defs split: option.splits)

lemma short_list_cases:
  assumes "length xs < 4"
  obtains "xs = []" | x where "xs = [x]" | x y where "xs = [x, y]"
    | x y z where "xs = [x, y, z]"
proof (cases xs)
  case Nil
  then show ?thesis using that(1) by simp
next
  case c1: (Cons a as)
  show ?thesis
  proof (cases as)
    case Nil
    with c1 show ?thesis using that(2) by simp
  next
    case c2: (Cons b bs)
    show ?thesis
    proof (cases bs)
      case Nil
      with c1 c2 show ?thesis using that(3) by simp
    next
      case c3: (Cons c cs)
      with c1 c2 assms have "cs = []" by simp
      with c1 c2 c3 show ?thesis using that(4) by simp
    qed
  qed
qed

lemma long_list_shape:
  assumes "4 \<le> length xs"
  obtains a b c d rest where "xs = a # b # c # d # rest"
proof -
  from assms obtain a r1 where 1: "xs = a # r1" by (cases xs) auto
  with assms obtain b r2 where 2: "r1 = b # r2" by (cases r1) auto
  with 1 assms obtain c r3 where 3: "r2 = c # r3" by (cases r2) auto
  with 1 2 assms obtain d r4 where 4: "r3 = d # r4" by (cases r3) auto
  from 1 2 3 4 that show ?thesis by blast
qed

lemma match_line_Raise_iff:
  "match_line subject = Some Raise \<longleftrightarrow> subject = [] \<or> 4 \<le> length subject"
proof (cases "4 \<le> length subject")
  case True
  then obtain a b c d rest where "subject = a # b # c # d # rest"
    by (rule long_list_shape)
  with True show ?thesis by (simp add: match_line_four)
next
  case False
  then have "length subject < 4" by simp
  then show ?thesis
    by (cases subject rule: short_list_cases)
       (simp_all add: match_line_Nil match_line_single match_line_two match_line_three)
qed

lemma match_split_Raise_iff:
  "match_line (split_on comma line) = Some Raise \<longleftrightarrow> 3 \<le> count_list line comma"
  using split_on_not_Nil [of comma line]
  by (simp add: match_line_Raise_iff length_split_on)

section \<open>Properties of the loop\<close>

lemma loop_empty_line: "loop values ('''' # lines) = loop values lines"
  by (simp add: match_line_single)

lemma match_split_Raise:
  "3 \<le> count_list line comma \<Longrightarrow> match_line (split_on comma line) = Some Raise"
  by (simp add: match_split_Raise_iff)

lemma loop_raise_line:
  "3 \<le> count_list line comma \<Longrightarrow> loop values (line # lines) = (values, Some UnhandledRow)"
  by (simp add: match_split_Raise)

lemma loop_append_line:
  assumes "count_list line comma < 3" and "line \<noteq> ''''"
  shows "\<exists>r. match_line (split_on comma line) = Some (Append r) \<and> length r = 3"
proof -
  have "length (split_on comma line) < 4"
    using assms(1) by (simp add: length_split_on)
  then show ?thesis
  proof (cases "split_on comma line" rule: short_list_cases)
    case 1
    then show ?thesis using split_on_not_Nil [of comma line] by simp
  next
    case (2 x)
    have "x = line"
    proof -
      have "count_list line comma = 0"
        using 2 length_split_on [of comma line] by simp
      then have "comma \<notin> set line" by (simp add: count_list_0_iff)
      then show ?thesis using 2 by (simp add: split_on_no_sep)
    qed
    with 2 assms(2) show ?thesis by (simp add: match_line_single)
  next
    case (3 x y)
    then show ?thesis by (simp add: match_line_two)
  next
    case (4 x y z)
    then show ?thesis by (simp add: match_line_three)
  qed
qed

lemma loop_raises_iff:
  "snd (loop values lines) = Some UnhandledRow \<longleftrightarrow> (\<exists>l\<in>set lines. 3 \<le> count_list l comma)"
proof (induction lines arbitrary: "values")
  case Nil
  show ?case by simp
next
  case (Cons line lines)
  show ?case
  proof (cases "3 \<le> count_list line comma")
    case True
    then show ?thesis by (simp add: match_split_Raise)
  next
    case False
    then have "match_line (split_on comma line) \<noteq> Some Raise"
      by (simp add: match_split_Raise_iff)
    with False Cons show ?thesis
      by (simp split: option.splits outcome.splits)
  qed
qed

lemma loop_append_lines:
  "snd (loop values pre) = None \<Longrightarrow> loop values (pre @ post) = loop (fst (loop values pre)) post"
  by (induction pre arbitrary: "values")
     (simp_all split: option.splits outcome.splits)

lemma loop_rows_invariant:
  assumes "\<And>r. r \<in> set values \<Longrightarrow> P r"
    and "\<And>subject r. match_line subject = Some (Append r) \<Longrightarrow> P r"
  shows "r \<in> set (fst (loop values lines)) \<Longrightarrow> P r"
  using assms(1)
proof (induction lines arbitrary: "values")
  case Nil
  then show ?case by simp
next
  case (Cons line lines)
  show ?case
  proof (cases "match_line (split_on comma line)")
    case None
    with Cons show ?thesis by simp
  next
    case (Some out)
    show ?thesis
    proof (cases out)
      case (Append new)
      have "P new" using Some Append assms(2) by blast
      then have "\<And>r. r \<in> set (values @ [new]) \<Longrightarrow> P r"
        using Cons.prems(2) by auto
      moreover have "r \<in> set (fst (loop (values @ [new]) lines))"
        using Cons.prems(1) Some Append by simp
      ultimately show ?thesis by (rule Cons.IH [rotated])
    next
      case Continue
      with Some Cons show ?thesis by simp
    next
      case Raise
      with Some Cons show ?thesis by simp
    qed
  qed
qed

lemma match_line_Append_shape:
  assumes "match_line subject = Some (Append r)"
  shows "length r = 3 \<and>
    (\<forall>v\<in>set r. (\<exists>s. v = PStr s) \<or> v = PInt 1 \<or> v = PInt 2 \<or> v = PInt 3 \<or> v = PNone)"
proof (cases "4 \<le> length subject")
  case True
  then have "match_line subject = Some Raise" by (simp add: match_line_Raise_iff)
  with assms show ?thesis by simp
next
  case False
  then have "length subject < 4" by simp
  then show ?thesis using assms
    by (cases subject rule: short_list_cases)
       (auto simp: match_line_Nil match_line_single match_line_two match_line_three
             split: if_splits)
qed

lemma loop_concat:
  "fst (loop values lines) =
     values @ concat (map (\<lambda>l. fst (loop [] [l]))
                        (takeWhile (\<lambda>l. snd (loop [] [l]) = None) lines))"
proof (induction lines arbitrary: "values")
  case Nil
  show ?case by simp
next
  case (Cons line lines)
  show ?case
  proof (cases "match_line (split_on comma line)")
    case None
    then show ?thesis using match_line_Some by blast
  next
    case (Some out)
    then show ?thesis using Cons [of "values"] Cons [of "values @ [r]" for r]
      by (cases out) simp_all
  qed
qed

lemma no_error_iff: "e = None \<longleftrightarrow> e \<noteq> Some UnhandledRow"
proof (cases e)
  case None
  then show ?thesis by simp
next
  case (Some err)
  then show ?thesis by (cases err) simp
qed

lemma loop_single_ok:
  assumes "snd (loop values lines) = None" and "l \<in> set lines"
  shows "snd (loop [] [l]) = None"
proof -
  have "\<not> (\<exists>l\<in>set lines. 3 \<le> count_list l comma)"
    using assms(1) loop_raises_iff [of "values" lines] by simp
  with assms(2) have "\<not> (\<exists>k\<in>set [l]. 3 \<le> count_list k comma)" by simp
  then have "snd (loop [] [l]) \<noteq> Some UnhandledRow"
    using loop_raises_iff [of "[]" "[l]"] by blast
  then show ?thesis by (simp only: no_error_iff [of "snd (loop [] [l])"] not_False_eq_True)
qed

lemma loop_filter_empty:
  "loop values (filter (\<lambda>l. l \<noteq> '''') lines) = loop values lines"
  by (induction lines arbitrary: "values")
     (simp_all add: match_line_single split: option.splits outcome.splits)

section \<open>The rules, one by one\<close>

text \<open>
  C5. A line that splits into exactly three tokens \<open>[x, y, z]\<close> appends the row
  \<open>[x, y, z]\<close>: the three tokens unchanged and in the same order.
\<close>

theorem three_tokens_kept:
  assumes "split_on comma line = [x, y, z]"
  shows "match_line (split_on comma line) = Some (Append [PStr x, PStr y, PStr z])
    \<and> loop values [line] = (values @ [[PStr x, PStr y, PStr z]], None)
    \<and> loop values (line # lines) = loop (values @ [[PStr x, PStr y, PStr z]]) lines"
  using assms by (simp add: match_line_three)

theorem three_tokens_kept_witness:
  "split_on comma ''0,1,2'' = [''0'', ''1'', ''2'']
    \<and> loop [] [''0,1,2''] = ([[PStr ''0'', PStr ''1'', PStr ''2'']], None)"
proof -
  have h: "split_on comma ''0,1,2'' = [''0'', ''1'', ''2'']"
    by (simp add: comma_def)
  from three_tokens_kept [OF h, of "[]" "[]"] h show ?thesis by simp
qed

text \<open>
  C6. A line that splits into exactly two tokens \<open>[x, y]\<close> appends the row
  \<open>[x, y, None]\<close>.
\<close>

theorem two_tokens_padded:
  assumes "split_on comma line = [x, y]"
  shows "match_line (split_on comma line) = Some (Append [PStr x, PStr y, PNone])
    \<and> loop values [line] = (values @ [[PStr x, PStr y, PNone]], None)
    \<and> loop values (line # lines) = loop (values @ [[PStr x, PStr y, PNone]]) lines"
  using assms by (simp add: match_line_two)

theorem two_tokens_padded_witness:
  "split_on comma ''1,2'' = [''1'', ''2'']
    \<and> loop [] [''1,2''] = ([[PStr ''1'', PStr ''2'', PNone]], None)"
proof -
  have h: "split_on comma ''1,2'' = [''1'', ''2'']"
    by (simp add: comma_def)
  from two_tokens_padded [OF h, of "[]" "[]"] h show ?thesis by simp
qed

text \<open>
  C4. A line that splits into the single token \<open>"1"\<close> appends the row of integers
  \<open>[1, 2, 3]\<close>, although the capture clause \<open>[x]\<close> matches that subject too: the
  literal clause comes first.
\<close>

theorem single_one_gives_numbers:
  assumes "split_on comma line = [''1'']"
  shows "match_line (split_on comma line) = Some (Append [PInt 1, PInt 2, PInt 3])
    \<and> loop values [line] = (values @ [[PInt 1, PInt 2, PInt 3]], None)
    \<and> loop values (line # lines) = loop (values @ [[PInt 1, PInt 2, PInt 3]]) lines
    \<and> case_x (split_on comma line) = Some (Append [PStr ''1'', PNone, PNone])"
  using assms by (simp add: match_line_single case_x_def)

theorem single_one_gives_numbers_witness:
  "split_on comma ''1'' = [''1'']
    \<and> loop [] [''1''] = ([[PInt 1, PInt 2, PInt 3]], None)"
proof -
  have h: "split_on comma ''1'' = [''1'']"
    by (simp add: comma_def)
  from single_one_gives_numbers [OF h, of "[]" "[]"] h show ?thesis by simp
qed

text \<open>
  C7. A line that splits into exactly one token \<open>x\<close>, with \<open>x\<close> neither empty nor
  \<open>"1"\<close>, appends the row \<open>[x, None, None]\<close>.
\<close>

theorem single_token_padded:
  assumes "split_on comma line = [x]" and "x \<noteq> ''''" and "x \<noteq> ''1''"
  shows "match_line (split_on comma line) = Some (Append [PStr x, PNone, PNone])
    \<and> loop values [line] = (values @ [[PStr x, PNone, PNone]], None)
    \<and> loop values (line # lines) = loop (values @ [[PStr x, PNone, PNone]]) lines"
  using assms by (simp add: match_line_single)

theorem single_token_padded_witness:
  "split_on comma ''0'' = [''0''] \<and> ''0'' \<noteq> '''' \<and> ''0'' \<noteq> ''1''
    \<and> loop [] [''0''] = ([[PStr ''0'', PNone, PNone]], None)"
proof -
  have h: "split_on comma ''0'' = [''0'']"
    by (simp add: comma_def)
  have n: "''0'' \<noteq> ''''" "''0'' \<noteq> ''1''"
    by simp_all
  from single_token_padded [OF h n, of "[]" "[]"] h n show ?thesis by simp
qed

section \<open>The example of the notebook\<close>

text \<open>
  C2. On the text \<open>"0,1,2\n1,2,3\n1,2\n0\n1\n"\<close> the loop ends without an exception
  and leaves the five rows of the notebook's output in \<open>values\<close>; the sixth piece of the
  text, the empty one after the last newline, adds no row. The string \<open>bad_csv\<close> of
  the notebook, which has one more newline in front, gives the same rows.
\<close>

theorem example_rows:
  "split_on newline ''0,1,2\<newline>1,2,3\<newline>1,2\<newline>0\<newline>1\<newline>''
     = [''0,1,2'', ''1,2,3'', ''1,2'', ''0'', ''1'', '''']
   \<and> transform ''0,1,2\<newline>1,2,3\<newline>1,2\<newline>0\<newline>1\<newline>''
     = ([[PStr ''0'', PStr ''1'', PStr ''2''],
         [PStr ''1'', PStr ''2'', PStr ''3''],
         [PStr ''1'', PStr ''2'', PNone],
         [PStr ''0'', PNone, PNone],
         [PInt 1, PInt 2, PInt 3]], None)
   \<and> transform bad_csv
     = ([[PStr ''0'', PStr ''1'', PStr ''2''],
         [PStr ''1'', PStr ''2'', PStr ''3''],
         [PStr ''1'', PStr ''2'', PNone],
         [PStr ''0'', PNone, PNone],
         [PInt 1, PInt 2, PInt 3]], None)"
  by (simp add: transform_def bad_csv_def newline_def comma_def match_line_def clause_defs)

section \<open>The order of the cases\<close>

text \<open>
  C3. The order of the clauses matters. On the line \<open>"1"\<close> the match statement of the
  notebook appends \<open>[1, 2, 3]\<close>, the one with the capture \<open>[x]\<close> before the literal
  \<open>["1"]\<close> appends \<open>["1", None, None]\<close>, so the two are different functions. The
  capture matches every subject of one token, so that after it the literal clause is
  never the one that runs. The two cells of the notebook print \<open>x\<close> and \<open>a\<close>.
\<close>

theorem case_order_matters:
  "match_line (split_on comma ''1'') = Some (Append [PInt 1, PInt 2, PInt 3])
   \<and> match_line_reordered (split_on comma ''1'') = Some (Append [PStr ''1'', PNone, PNone])
   \<and> match_line \<noteq> match_line_reordered
   \<and> (\<forall>x. case_x [x] = Some (Append [PStr x, PNone, PNone]))
   \<and> (\<forall>x. match_line_reordered [x] =
           Some (if x = '''' then Continue else Append [PStr x, PNone, PNone]))
   \<and> demo_capture_first = [''x'']
   \<and> demo_literal_first = [''a'']"
proof -
  have s: "split_on comma ''1'' = [''1'']"
    by (simp add: comma_def)
  have a: "match_line [''1''] = Some (Append [PInt 1, PInt 2, PInt 3])"
    by (simp add: match_line_single)
  have b: "match_line_reordered [x] =
             Some (if x = '''' then Continue else Append [PStr x, PNone, PNone])" for x
    by (simp add: match_line_reordered_def clause_defs)
  have c: "match_line \<noteq> match_line_reordered"
  proof
    assume "match_line = match_line_reordered"
    then have "match_line [''1''] = match_line_reordered [''1'']" by simp
    then show False by (simp add: a b)
  qed
  have d: "demo_capture_first = [''x'']" "demo_literal_first = [''a'']"
    by (simp_all add: demo_capture_first_def demo_literal_first_def demo_capture_def
          demo_literal_def print_lines_def)
  show ?thesis
    unfolding s by (simp add: a b c d case_x_def)
qed

section \<open>Skipped lines and the order of the rows\<close>

text \<open>
  C8. An empty line adds no row, whatever \<open>values\<close> holds, and the loop gives the same
  result on the lines with the empty ones removed. The rows in \<open>values\<close> are the rows
  of the single lines, in the order of the lines, up to the first line that raises;
  when no exception is raised every line counts, and each of them that is not empty
  gives exactly one row. The empty text is one empty line and gives no row.
\<close>

theorem empty_lines_skipped_order_kept:
  "loop values ('''' # lines) = loop values lines
   \<and> transform text = loop [] (filter (\<lambda>l. l \<noteq> '''') (split_on newline text))
   \<and> fst (transform text) =
       concat (map (\<lambda>l. fst (loop [] [l]))
                   (takeWhile (\<lambda>l. snd (loop [] [l]) = None) (split_on newline text)))
   \<and> (snd (transform text) = None \<longrightarrow>
        fst (transform text) = concat (map (\<lambda>l. fst (loop [] [l])) (split_on newline text))
        \<and> (\<forall>l\<in>set (split_on newline text).
              length (fst (loop [] [l])) = (if l = '''' then 0 else 1)))
   \<and> split_on newline '''' = ['''']
   \<and> transform '''' = ([], None)"
proof -
  let ?rows = "\<lambda>l. fst (loop [] [l])"
  let ?ok = "\<lambda>l. snd (loop [] [l]) = None"
  let ?lines = "split_on newline text"
  have a: "loop values ('''' # lines) = loop values lines"
    by (rule loop_empty_line)
  have b: "transform text = loop [] (filter (\<lambda>l. l \<noteq> '''') ?lines)"
    by (simp only: transform_def loop_filter_empty)
  have c: "fst (transform text) = concat (map ?rows (takeWhile ?ok ?lines))"
    using loop_concat [of "[]" ?lines] by (simp only: transform_def append_Nil)
  have d: "fst (transform text) = concat (map ?rows ?lines)
      \<and> (\<forall>l\<in>set ?lines. length (?rows l) = (if l = '''' then 0 else 1))"
    if ok: "snd (transform text) = None"
  proof
    have all: "\<And>l. l \<in> set ?lines \<Longrightarrow> ?ok l"
      using ok loop_single_ok [of "[]" ?lines] by (simp only: transform_def)
    then have tw: "takeWhile ?ok ?lines = ?lines"
      by (simp only: takeWhile_eq_all_conv) blast
    show "fst (transform text) = concat (map ?rows ?lines)"
      using c by (simp only: tw)
    show "\<forall>l\<in>set ?lines. length (?rows l) = (if l = '''' then 0 else 1)"
    proof
      fix l
      assume l: "l \<in> set ?lines"
      show "length (?rows l) = (if l = '''' then 0 else 1)"
      proof (cases "l = ''''")
        case True
        then show ?thesis by (simp add: match_line_single)
      next
        case False
        have "\<not> 3 \<le> count_list l comma"
          using all [OF l] by (auto simp: match_split_Raise)
        then obtain r where "match_line (split_on comma l) = Some (Append r)"
          using loop_append_line [of l] False by auto
        with False show ?thesis by simp
      qed
    qed
  qed
  have e: "split_on newline '''' = ['''']" by simp
  have f: "transform '''' = ([], None)"
    by (simp add: transform_def match_line_single)
  from a b c d e f show ?thesis by blast
qed

theorem empty_lines_skipped_order_kept_witness:
  "snd (transform ''0\<newline>\<newline>1,2\<newline>'') = None
   \<and> split_on newline ''0\<newline>\<newline>1,2\<newline>'' = [''0'', '''', ''1,2'', '''']
   \<and> fst (transform ''0\<newline>\<newline>1,2\<newline>'')
       = concat (map (\<lambda>l. fst (loop [] [l])) [''0'', '''', ''1,2'', ''''])
   \<and> fst (transform ''0\<newline>\<newline>1,2\<newline>'')
       = [[PStr ''0'', PNone, PNone], [PStr ''1'', PStr ''2'', PNone]]
   \<and> length (fst (loop [] [''''])) = 0
   \<and> length (fst (loop [] [''1,2''])) = 1"
proof -
  let ?t = "''0\<newline>\<newline>1,2\<newline>''"
  have t: "transform ?t = ([[PStr ''0'', PNone, PNone], [PStr ''1'', PStr ''2'', PNone]], None)"
    by (simp add: transform_def newline_def comma_def match_line_def clause_defs)
  have s: "split_on newline ?t = [''0'', '''', ''1,2'', '''']"
    by (simp add: newline_def)
  have h: "snd (transform ?t) = None"
    by (simp only: t snd_conv)
  from empty_lines_skipped_order_kept [of "[]" "[]" ?t] h
  have 1: "fst (transform ?t) = concat (map (\<lambda>l. fst (loop [] [l])) (split_on newline ?t))"
    and 2: "\<forall>l\<in>set (split_on newline ?t).
              length (fst (loop [] [l])) = (if l = '''' then 0 else 1)"
    by blast+
  from 2 have 3: "length (fst (loop [] [''''])) = 0" "length (fst (loop [] [''1,2''])) = 1"
    unfolding s by simp_all
  from 1 have 4: "fst (transform ?t)
       = concat (map (\<lambda>l. fst (loop [] [l])) [''0'', '''', ''1,2'', ''''])"
    by (simp only: s)
  from h s 4 3 t show ?thesis by (simp only: fst_conv simp_thms)
qed

section \<open>The shape of the rows\<close>

text \<open>
  C9. Every row that the loop leaves in \<open>values\<close> has exactly three elements, each of
  them a string, one of the integers \<open>1\<close>, \<open>2\<close>, \<open>3\<close>, or \<open>None\<close>. This holds for
  every text, also for the rows appended before an exception.
\<close>

theorem rows_rectangular:
  "\<forall>r\<in>set (fst (transform text)).
     length r = 3
     \<and> (\<forall>v\<in>set r. (\<exists>s. v = PStr s) \<or> v = PInt 1 \<or> v = PInt 2 \<or> v = PInt 3 \<or> v = PNone)"
proof
  fix r
  assume "r \<in> set (fst (transform text))"
  then have r: "r \<in> set (fst (loop [] (split_on newline text)))"
    by (simp only: transform_def)
  show "length r = 3
     \<and> (\<forall>v\<in>set r. (\<exists>s. v = PStr s) \<or> v = PInt 1 \<or> v = PInt 2 \<or> v = PInt 3 \<or> v = PNone)"
  proof (rule loop_rows_invariant [OF _ _ r])
    fix q :: row
    assume "q \<in> set []"
    then show "length q = 3
     \<and> (\<forall>v\<in>set q. (\<exists>s. v = PStr s) \<or> v = PInt 1 \<or> v = PInt 2 \<or> v = PInt 3 \<or> v = PNone)"
      by simp
  next
    fix subject q
    assume "match_line subject = Some (Append q)"
    then show "length q = 3
     \<and> (\<forall>v\<in>set q. (\<exists>s. v = PStr s) \<or> v = PInt 1 \<or> v = PInt 2 \<or> v = PInt 3 \<or> v = PNone)"
      by (rule match_line_Append_shape)
  qed
qed

theorem rows_rectangular_witness:
  "[PStr ''1'', PStr ''2'', PNone] \<in> set (fst (transform ''1\<newline>1,2''))
   \<and> [PInt 1, PInt 2, PInt 3] \<in> set (fst (transform ''1\<newline>1,2''))
   \<and> length [PStr ''1'', PStr ''2'', PNone] = 3
   \<and> length [PInt 1, PInt 2, PInt 3] = 3"
proof -
  have t: "fst (transform ''1\<newline>1,2'') = [[PInt 1, PInt 2, PInt 3], [PStr ''1'', PStr ''2'', PNone]]"
    by (simp add: transform_def newline_def comma_def match_line_def clause_defs)
  have m: "[PStr ''1'', PStr ''2'', PNone] \<in> set (fst (transform ''1\<newline>1,2''))"
    "[PInt 1, PInt 2, PInt 3] \<in> set (fst (transform ''1\<newline>1,2''))"
    by (simp_all only: t list.set insert_iff simp_thms)
  from rows_rectangular [of "''1\<newline>1,2''"] m
  have "length [PStr ''1'', PStr ''2'', PNone] = 3" "length [PInt 1, PInt 2, PInt 3] = 3"
    by blast+
  with m show ?thesis by blast
qed

section \<open>When the loop raises\<close>

text \<open>
  C1 does not hold of every text. The line \<open>"a,b,c,d"\<close> splits into four tokens,
  none of the first five clauses matches them, and the wildcard clause raises.
\<close>

theorem four_tokens_raise:
  "split_on comma ''a,b,c,d'' = [''a'', ''b'', ''c'', ''d'']
   \<and> first_match [case_xyz, case_xy, case_empty, case_one, case_x] (split_on comma ''a,b,c,d'')
       = None
   \<and> match_line (split_on comma ''a,b,c,d'') = Some Raise
   \<and> transform ''a,b,c,d'' = ([], Some UnhandledRow)"
  by (simp add: transform_def newline_def comma_def match_line_def clause_defs)

text \<open>
  C1, as the loop has it. When every line of the text has at most two commas, one of
  the first five clauses matches each line, the wildcard clause is not reached, and
  the loop ends without an exception.
\<close>

theorem no_raise_up_to_two_commas:
  assumes "\<forall>line\<in>set (split_on newline text). count_list line comma \<le> 2"
  shows "snd (transform text) = None
    \<and> (\<forall>line\<in>set (split_on newline text).
          first_match [case_xyz, case_xy, case_empty, case_one, case_x] (split_on comma line)
            \<noteq> None
          \<and> match_line (split_on comma line) \<noteq> Some Raise)"
proof
  have "\<not> (\<exists>l\<in>set (split_on newline text). 3 \<le> count_list l comma)"
    using assms by auto
  then have "snd (loop [] (split_on newline text)) \<noteq> Some UnhandledRow"
    using loop_raises_iff [of "[]" "split_on newline text"] by blast
  then show "snd (transform text) = None"
    by (simp only: transform_def no_error_iff [of "snd (loop [] (split_on newline text))"]
          not_False_eq_True)
  show "\<forall>line\<in>set (split_on newline text).
          first_match [case_xyz, case_xy, case_empty, case_one, case_x] (split_on comma line)
            \<noteq> None
          \<and> match_line (split_on comma line) \<noteq> Some Raise"
  proof
    fix line
    assume "line \<in> set (split_on newline text)"
    with assms have "\<not> 3 \<le> count_list line comma" by auto
    then have n: "match_line (split_on comma line) \<noteq> Some Raise"
      by (simp only: match_split_Raise_iff not_False_eq_True)
    have "first_match [case_xyz, case_xy, case_empty, case_one, case_x] subject = None
        \<Longrightarrow> match_line subject = Some Raise" for subject
      by (simp add: match_line_def case_wildcard_def split: option.splits)
    with n show "first_match [case_xyz, case_xy, case_empty, case_one, case_x]
          (split_on comma line) \<noteq> None
        \<and> match_line (split_on comma line) \<noteq> Some Raise"
      by blast
  qed
qed

theorem no_raise_up_to_two_commas_witness:
  "split_on newline ''0,1,2\<newline>1,2\<newline>1\<newline>'' = [''0,1,2'', ''1,2'', ''1'', '''']
   \<and> count_list ''0,1,2'' comma \<le> 2 \<and> count_list ''1,2'' comma \<le> 2
   \<and> count_list ''1'' comma \<le> 2 \<and> count_list '''' comma \<le> 2
   \<and> snd (transform ''0,1,2\<newline>1,2\<newline>1\<newline>'') = None"
proof -
  let ?t = "''0,1,2\<newline>1,2\<newline>1\<newline>''"
  have s: "split_on newline ?t = [''0,1,2'', ''1,2'', ''1'', '''']"
    by (simp add: newline_def)
  have c: "count_list ''0,1,2'' comma \<le> 2" "count_list ''1,2'' comma \<le> 2"
    "count_list ''1'' comma \<le> 2" "count_list '''' comma \<le> 2"
    by (simp_all add: comma_def)
  have h: "\<forall>line\<in>set (split_on newline ?t). count_list line comma \<le> 2"
    unfolding s using c by simp
  from no_raise_up_to_two_commas [OF h] s c show ?thesis by blast
qed

text \<open>
  C10. The loop raises exactly when some line of the text has three or more commas,
  that is, splits into four or more tokens; splitting never gives an empty list of
  tokens, so these are the only lines on which the wildcard clause runs. The loop stops
  at the first such line: \<open>values\<close> then holds the rows of the lines before it, and
  the lines after it play no part.
\<close>

theorem raises_iff_three_commas:
  "(snd (transform text) = Some UnhandledRow
      \<longleftrightarrow> (\<exists>line\<in>set (split_on newline text). 3 \<le> count_list line comma))
   \<and> (3 \<le> count_list line comma \<longleftrightarrow> 4 \<le> length (split_on comma line))
   \<and> split_on sep s \<noteq> []
   \<and> (match_line (split_on comma line) = Some Raise \<longleftrightarrow> 4 \<le> length (split_on comma line))
   \<and> (split_on newline text = pre @ bad # post
        \<and> (\<forall>l\<in>set pre. count_list l comma < 3) \<and> 3 \<le> count_list bad comma
      \<longrightarrow> snd (loop [] pre) = None
        \<and> transform text = (fst (loop [] pre), Some UnhandledRow))"
proof -
  have a: "snd (transform text) = Some UnhandledRow
      \<longleftrightarrow> (\<exists>line\<in>set (split_on newline text). 3 \<le> count_list line comma)"
    by (simp only: transform_def loop_raises_iff)
  have b: "3 \<le> count_list line comma \<longleftrightarrow> 4 \<le> length (split_on comma line)"
    by (simp add: length_split_on)
  have c: "split_on sep s \<noteq> []"
    by (rule split_on_not_Nil)
  have d: "match_line (split_on comma line) = Some Raise
      \<longleftrightarrow> 4 \<le> length (split_on comma line)"
    by (simp only: match_split_Raise_iff b)
  have e: "snd (loop [] pre) = None
        \<and> transform text = (fst (loop [] pre), Some UnhandledRow)"
    if split: "split_on newline text = pre @ bad # post"
      and pre: "\<forall>l\<in>set pre. count_list l comma < 3"
      and bad: "3 \<le> count_list bad comma"
  proof
    have "\<not> (\<exists>l\<in>set pre. 3 \<le> count_list l comma)"
      using pre by auto
    then have "snd (loop [] pre) \<noteq> Some UnhandledRow"
      using loop_raises_iff [of "[]" pre] by blast
    then show ok: "snd (loop [] pre) = None"
      by (simp only: no_error_iff [of "snd (loop [] pre)"] not_False_eq_True)
    have "transform text = loop (fst (loop [] pre)) (bad # post)"
      by (simp only: transform_def split loop_append_lines [OF ok])
    also have "\<dots> = (fst (loop [] pre), Some UnhandledRow)"
      using bad by (rule loop_raise_line)
    finally show "transform text = (fst (loop [] pre), Some UnhandledRow)" .
  qed
  from a b c d e show ?thesis by blast
qed

theorem raises_iff_three_commas_witness:
  "split_on newline ''0,1\<newline>a,b,c,d\<newline>x,y,z,u,v'' = [''0,1''] @ ''a,b,c,d'' # [''x,y,z,u,v'']
   \<and> count_list ''0,1'' comma < 3
   \<and> 3 \<le> count_list ''a,b,c,d'' comma
   \<and> 4 \<le> length (split_on comma ''a,b,c,d'')
   \<and> snd (transform ''0,1\<newline>a,b,c,d\<newline>x,y,z,u,v'') = Some UnhandledRow
   \<and> transform ''0,1\<newline>a,b,c,d\<newline>x,y,z,u,v'' = (fst (loop [] [''0,1'']), Some UnhandledRow)
   \<and> fst (loop [] [''0,1'']) = [[PStr ''0'', PStr ''1'', PNone]]"
proof -
  let ?t = "''0,1\<newline>a,b,c,d\<newline>x,y,z,u,v''"
  have s: "split_on newline ?t = [''0,1''] @ ''a,b,c,d'' # [''x,y,z,u,v'']"
    by (simp add: newline_def)
  have p: "count_list ''0,1'' comma < 3"
    by (simp add: comma_def)
  then have p': "\<forall>l\<in>set [''0,1'']. count_list l comma < 3"
    by simp
  have b: "3 \<le> count_list ''a,b,c,d'' comma"
    by (simp add: comma_def)
  have m: "''a,b,c,d'' \<in> set (split_on newline ?t)"
    unfolding s by simp
  have v: "fst (loop [] [''0,1'']) = [[PStr ''0'', PStr ''1'', PNone]]"
    by (simp add: comma_def match_line_two)
  note inst = raises_iff_three_commas
    [of ?t "''a,b,c,d''" newline ?t "[''0,1'']" "''a,b,c,d''" "[''x,y,z,u,v'']"]
  from inst m b have 1: "snd (transform ?t) = Some UnhandledRow" by blast
  from inst b have 2: "4 \<le> length (split_on comma ''a,b,c,d'')" by blast
  from inst s p' b have 3: "transform ?t = (fst (loop [] [''0,1'']), Some UnhandledRow)"
    by blast
  from s p b 2 1 3 v show ?thesis by blast
qed

end
